theory Spec2Isabelle
  imports Main
begin

section \<open>The data of the Twitter content handler\<close>

text \<open>
  The interfaces of \<^verbatim>\<open>twitter-handler.ts\<close>, one record each. Field names that several
  interfaces share or that the functions use for their variables (\<^verbatim>\<open>id\<close>, \<^verbatim>\<open>url\<close>,
  \<^verbatim>\<open>type\<close>, \<^verbatim>\<open>data\<close>, \<^verbatim>\<open>username\<close>) or that are keywords of
  Isabelle (\<^verbatim>\<open>text\<close>, \<^verbatim>\<open>includes\<close>) carry the interface as a prefix. An optional field
  (\<^verbatim>\<open>media?\<close>, \<^verbatim>\<open>attachments?\<close>) is an \<open>option\<close>. A string is a list of code units
  below 256, so text outside Latin-1 and ill-formed UTF-16 are outside the model.
\<close>

record User =
  user_id :: string
  user_name :: string
  profile_image_url :: string
  user_username :: string

record Media =
  preview_image_url :: string
  media_type :: string
  media_url :: string
  media_key :: string

record TweetIncludes =
  users :: "User list"
  media :: "Media list option"

record TweetMeta =
  result_count :: int

record UrlEntity =
  entity_url :: string
  expanded_url :: string
  display_url :: string

record Entities =
  urls :: "UrlEntity list"

record ReferencedTweet =
  ref_type :: string
  ref_id :: string

record Attachments =
  media_keys :: "string list"

record TweetData =
  author_id :: string
  tweet_text :: string
  entities :: Entities
  created_at :: string
  referenced_tweets :: "ReferencedTweet list"
  conversation_id :: string
  attachments :: "Attachments option"

record Tweet =
  tweet_data :: TweetData
  tweet_includes :: TweetIncludes

record Tweets =
  tweets_data :: "TweetData list"
  tweets_includes :: TweetIncludes
  tweets_meta :: TweetMeta

record EmbedTweet =
  author_name :: string
  author_url :: string
  cache_age :: string
  height :: int
  html :: string
  provider_name :: string
  provider_url :: string
  embed_type :: string
  embed_url :: string
  version :: string
  width :: int

text \<open>
  What \<^verbatim>\<open>preHandle\<close> returns: the three fields that the handler fills of the
  \<^verbatim>\<open>PreHandleResult\<close> of \<^verbatim>\<open>content-handler.ts\<close>.
\<close>

record PreHandleResult =
  result_content :: string
  result_url :: string
  result_title :: string

section \<open>Regular expressions\<close>

text \<open>
  The handler matches with three regular expressions. They are terms of the type \<open>rx\<close>,
  run by a backtracking matcher in the order of ECMAScript: the alternatives of \<^verbatim>\<open>|\<close> from
  left to right, a greedy \<^verbatim>\<open>*\<close> first with one more iteration and then without, an
  iteration that consumes nothing refused. The character classes are those the three
  expressions use, read without the \<^verbatim>\<open>u\<close> flag.
\<close>

datatype cls = Word | Digit | NonSpace | NotSlash | Dot

definition code :: "char \<Rightarrow> nat" where
  "code c = of_char c"

fun inCls :: "cls \<Rightarrow> char \<Rightarrow> bool" where
  "inCls Word c =
     ((97 \<le> code c \<and> code c \<le> 122) \<or> (65 \<le> code c \<and> code c \<le> 90)
      \<or> (48 \<le> code c \<and> code c \<le> 57) \<or> c = CHR ''_'')"
| "inCls Digit c = (48 \<le> code c \<and> code c \<le> 57)"
| "inCls NonSpace c = (code c \<notin> {9, 10, 11, 12, 13, 32, 160})"
| "inCls NotSlash c = (c \<noteq> CHR ''/'')"
| "inCls Dot c = (code c \<notin> {10, 13})"

declare inCls.simps [simp del]

datatype rx =
    Lit char
  | Cls cls
  | Eps
  | Seq rx rx
  | Alt rx rx
  | Star rx
  | Group nat rx

text \<open>
  A state of the matcher is the text still to read and the captures made so far, the
  latest first. \<open>run r st\<close> lists the states in which a match of \<open>r\<close> from \<open>st\<close> can end,
  in the order in which backtracking tries them.
\<close>

type_synonym caps = "(nat \<times> string) list"

type_synonym mstate = "string \<times> caps"

function run :: "rx \<Rightarrow> mstate \<Rightarrow> mstate list" where
  "run (Lit c) (s, cs) = (case s of [] \<Rightarrow> [] | x # xs \<Rightarrow> if x = c then [(xs, cs)] else [])"
| "run (Cls k) (s, cs) = (case s of [] \<Rightarrow> [] | x # xs \<Rightarrow> if inCls k x then [(xs, cs)] else [])"
| "run Eps (s, cs) = [(s, cs)]"
| "run (Seq a b) (s, cs) = concat (map (run b) (run a (s, cs)))"
| "run (Alt a b) (s, cs) = run a (s, cs) @ run b (s, cs)"
| "run (Star a) (s, cs) =
     concat (map (run (Star a)) (filter (\<lambda>st. length (fst st) < length s) (run a (s, cs))))
     @ [(s, cs)]"
| "run (Group n a) (s, cs) =
     map (\<lambda>st. (fst st, (n, take (length s - length (fst st)) s) # snd st)) (run a (s, cs))"
  by pat_completeness auto
termination
  by (relation "measures [\<lambda>(r, st). size r, \<lambda>(r, st). length (fst st)]") auto

declare run.simps [simp del]

text \<open>A literal text, \<^verbatim>\<open>(?:a)?\<close> and \<^verbatim>\<open>a+\<close>.\<close>

definition lit :: "string \<Rightarrow> rx" where
  "lit w = foldr (\<lambda>c r. Seq (Lit c) r) w Eps"

definition Opt :: "rx \<Rightarrow> rx" where
  "Opt a = Alt a Eps"

definition Plus :: "rx \<Rightarrow> rx" where
  "Plus a = Seq a (Star a)"

text \<open>
  The result of \<^verbatim>\<open>exec\<close>: the text before the match, the match, the text after it and
  the captures. \<open>matchAt\<close> takes the first way to match at one position, \<open>search\<close> the
  first position, from the left, at which there is a match.
\<close>

record rmatch =
  before :: string
  matched :: string
  after :: string
  groups :: caps

definition matchAt :: "rx \<Rightarrow> string \<Rightarrow> string \<Rightarrow> rmatch option" where
  "matchAt r pre s =
     (case run r (s, []) of
        [] \<Rightarrow> None
      | st # _ \<Rightarrow> Some \<lparr> before = pre, matched = take (length s - length (fst st)) s,
                          after = fst st, groups = snd st \<rparr>)"

fun search :: "rx \<Rightarrow> string \<Rightarrow> string \<Rightarrow> rmatch option" where
  "search r pre [] = matchAt r pre []"
| "search r pre (c # s) =
     (case matchAt r pre (c # s) of
        Some m \<Rightarrow> Some m
      | None \<Rightarrow> search r (pre @ [c]) s)"

text \<open>
  \<^verbatim>\<open>s.replace(r, replacement)\<close> for a regular expression without the \<^verbatim>\<open>g\<close> flag and a
  replacement without \<^verbatim>\<open>$\<close>: the first match is replaced.
\<close>

definition replaceFirst :: "rx \<Rightarrow> string \<Rightarrow> string \<Rightarrow> string" where
  "replaceFirst r replacement s =
     (case search r [] s of
        None \<Rightarrow> s
      | Some m \<Rightarrow> before m @ replacement @ after m)"

section \<open>The pure functions of the handler\<close>

text \<open>
  \<^verbatim>\<open>/(twitter|x)\.com\/(?:#!\/)?(\w+)\/status(?:es)?\/(\d+)(?:\/.*)?/\<close>: group 1 is the
  domain, group 2 the handle, group 3 the digits.
\<close>

definition TWITTER_URL_MATCH :: rx where
  "TWITTER_URL_MATCH =
     Seq (Group 1 (Alt (lit ''twitter'') (lit ''x'')))
    (Seq (lit ''.com/'')
    (Seq (Opt (lit ''#!/''))
    (Seq (Group 2 (Plus (Cls Word)))
    (Seq (lit ''/status'')
    (Seq (Opt (lit ''es''))
    (Seq (lit ''/'')
    (Seq (Group 3 (Plus (Cls Digit)))
         (Opt (Seq (lit ''/'') (Star (Cls Dot)))))))))))"

definition MAX_THREAD_DEPTH :: string where
  "MAX_THREAD_DEPTH = ''100''"

definition getTweetFields :: string where
  "getTweetFields =
     (''&tweet.fields=attachments,author_id,conversation_id,created_at,''
      @ ''entities,geo,in_reply_to_user_id,lang,possibly_sensitive,public_metrics,referenced_tweets,''
      @ ''source,withheld'')
     @ ''&expansions=author_id,attachments.media_keys''
     @ ''&user.fields=created_at,description,entities,location,pinned_tweet_id,profile_image_url,protected,public_metrics,url,verified,withheld''
     @ ''&media.fields=duration_ms,height,preview_image_url,url,media_key,public_metrics,width''"

text \<open>
  \<^verbatim>\<open>encodeURIComponent\<close> on code units below 256: the letters, the digits and
  \<^verbatim>\<open>- _ . ! ~ * ' ( )\<close> stay, every other character becomes the \<^verbatim>\<open>%XX\<close> of its UTF-8
  bytes (one byte below 128, two from 128 on).
\<close>

definition hexDigit :: "nat \<Rightarrow> char" where
  "hexDigit n = ''0123456789ABCDEF'' ! n"

definition percent :: "nat \<Rightarrow> string" where
  "percent n = [CHR ''%'', hexDigit (n div 16), hexDigit (n mod 16)]"

definition unreserved :: "char \<Rightarrow> bool" where
  "unreserved c =
     ((97 \<le> code c \<and> code c \<le> 122) \<or> (65 \<le> code c \<and> code c \<le> 90)
      \<or> (48 \<le> code c \<and> code c \<le> 57) \<or> c \<in> set ''-_.!~*()'' \<or> c = CHR 0x27)"

definition encodeChar :: "char \<Rightarrow> string" where
  "encodeChar c =
     (if unreserved c then [c]
      else if code c < 128 then percent (code c)
      else percent (192 + code c div 64) @ percent (128 + code c mod 64))"

definition encodeURIComponent :: "string \<Rightarrow> string" where
  "encodeURIComponent s = concat (map encodeChar s)"

text \<open>\<^verbatim>\<open>/http\S+/\<close>, the expression of \<^verbatim>\<open>titleForTweet\<close>.\<close>

definition httpPattern :: rx where
  "httpPattern = Seq (lit ''http'') (Plus (Cls NonSpace))"

definition titleForTweet :: "string \<Rightarrow> string \<Rightarrow> string" where
  "titleForTweet author text = author @ '' on X: '' @ replaceFirst httpPattern [] text"

text \<open>
  \<^verbatim>\<open>match?.[2]\<close>: \<^verbatim>\<open>undefined\<close> without a match, else the capture of group 2.
\<close>

definition tweetIdFromStatusUrl :: "string \<Rightarrow> string option" where
  "tweetIdFromStatusUrl url =
     (case search TWITTER_URL_MATCH [] url of
        None \<Rightarrow> None
      | Some m \<Rightarrow> map_of (groups m) 2)"

text \<open>
  The filter of \<^verbatim>\<open>getTweetsFromResponse\<close>:
  \<^verbatim>\<open>t.attachments?.media_keys?.includes(m.media_key)\<close>, which is \<^verbatim>\<open>undefined\<close>
  (so the medium is dropped) for a post without attachments.
\<close>

definition attached :: "TweetData \<Rightarrow> Media \<Rightarrow> bool" where
  "attached t m =
     (case attachments t of
        None \<Rightarrow> False
      | Some a \<Rightarrow> media_key m \<in> set (media_keys a))"

text \<open>
  The body of the loop builds one \<^verbatim>\<open>Tweet\<close>: the post itself, the users of the whole
  response, and the media of the response that the post attaches
  (\<^verbatim>\<open>response.includes.media?.filter(...)\<close>, \<^verbatim>\<open>undefined\<close> when the response has no media).
\<close>

definition tweetOf :: "Tweets \<Rightarrow> TweetData \<Rightarrow> Tweet" where
  "tweetOf response t =
     \<lparr> tweet_data = t,
       tweet_includes =
         \<lparr> users = users (tweets_includes response),
           media = map_option (filter (attached t)) (media (tweets_includes response)) \<rparr> \<rparr>"

text \<open>
  The loop \<^verbatim>\<open>for (const t of response.data) { ...; tweets.push(tweet) }\<close>, with the array
  \<^verbatim>\<open>tweets\<close> as an accumulator that grows at its end.
\<close>

fun pushTweets :: "Tweets \<Rightarrow> TweetData list \<Rightarrow> Tweet list \<Rightarrow> Tweet list" where
  "pushTweets response [] tweets = tweets"
| "pushTweets response (t # ts) tweets = pushTweets response ts (tweets @ [tweetOf response t])"

definition getTweetsFromResponse :: "Tweets \<Rightarrow> Tweet list" where
  "getTweetsFromResponse response = pushTweets response (tweets_data response) []"

section \<open>The calls to the outside\<close>

text \<open>
  An exception is a value: \<open>Error\<close> with its message for a \<^verbatim>\<open>throw new Error(...)\<close> of the
  code, \<open>Rejected\<close> for a call to the outside (axios, puppeteer, the \<^verbatim>\<open>URL\<close> constructor)
  that throws. A function that may throw returns \<open>error + 'a\<close>.

  What the code does to the outside is a trace of events, in the order of the calls. A
  function that calls the outside takes the trace so far and returns it extended.
\<close>

datatype error = Error string | Rejected string

datatype event =
    AxiosGet string "(string \<times> string) list"
  | ConsoleLog string
  | ConsoleError string
  | CreateIncognitoBrowserContext
  | NewPage
  | SetViewport
  | Goto string
  | Evaluate
  | CloseContext

type_synonym 'a io = "event list \<Rightarrow> (error + 'a) \<times> event list"

text \<open>
  The outside of the handler: the environment variable, what the two services answer to
  a GET (keyed by the text from which the code builds the \<^verbatim>\<open>URL\<close>, and by the headers;
  scheme, host and path of these texts are constants, so the constructor reads them all),
  and the text content of the first element that a selector finds in a parsed document
  (\<^verbatim>\<open>parseHTML(html).document.querySelector(selector)?.textContent\<close>).
\<close>

record env =
  TWITTER_BEARER_TOKEN :: "string option"
  axiosGetTweets :: "string \<Rightarrow> (string \<times> string) list \<Rightarrow> error + Tweets"
  axiosGetEmbed :: "string \<Rightarrow> error + EmbedTweet"
  textContent :: "string \<Rightarrow> string \<Rightarrow> string option"

text \<open>\<^verbatim>\<open>!TWITTER_BEARER_TOKEN\<close>: the variable is unset or empty.\<close>

definition noToken :: "env \<Rightarrow> bool" where
  "noToken e = (case TWITTER_BEARER_TOKEN e of None \<Rightarrow> True | Some t \<Rightarrow> t = [])"

definition bearerHeaders :: "env \<Rightarrow> (string \<times> string) list" where
  "bearerHeaders e =
     [(''Authorization'', ''Bearer '' @ (case TWITTER_BEARER_TOKEN e of None \<Rightarrow> [] | Some t \<Rightarrow> t)),
      (''redirect'', ''follow'')]"

definition threadUrl :: "string \<Rightarrow> string" where
  "threadUrl conversationId =
     ''https://api.twitter.com/2/tweets/search/recent''
     @ ''?query='' @ encodeURIComponent (''conversation_id:'' @ conversationId)
     @ getTweetFields @ ''&max_results='' @ MAX_THREAD_DEPTH"

definition getTweetThread :: "env \<Rightarrow> string \<Rightarrow> Tweets io" where
  "getTweetThread e conversationId tr =
     (let apiUrl = threadUrl conversationId in
      if noToken e then (Inl (Error ''No Twitter bearer token found''), tr)
      else (axiosGetTweets e apiUrl (bearerHeaders e), tr @ [AxiosGet apiUrl (bearerHeaders e)]))"

definition embedUrlOf :: "string \<Rightarrow> string" where
  "embedUrlOf u = ''https://publish.twitter.com/oembed'' @ ''?url='' @ encodeURIComponent u"

definition getEmbedTweet :: "env \<Rightarrow> string \<Rightarrow> EmbedTweet io" where
  "getEmbedTweet e u tr =
     (let embedUrl = embedUrlOf u in (axiosGetEmbed e embedUrl, tr @ [AxiosGet embedUrl []]))"

text \<open>\<^verbatim>\<open>ids.join()\<close>: the elements with a comma between them.\<close>

fun join :: "string list \<Rightarrow> string" where
  "join [] = []"
| "join [x] = x"
| "join (x # y # ys) = x @ '','' @ join (y # ys)"

definition idsUrl :: "string list \<Rightarrow> string" where
  "idsUrl ids = ''https://api.twitter.com/2/tweets?ids='' @ join ids @ getTweetFields"

definition getTweetsByIds :: "env \<Rightarrow> string list \<Rightarrow> Tweets io" where
  "getTweetsByIds e ids tr =
     (let apiUrl = idsUrl ids in
      if noToken e then (Inl (Error ''No Twitter bearer token found''), tr)
      else (axiosGetTweets e apiUrl (bearerHeaders e), tr @ [AxiosGet apiUrl (bearerHeaders e)]))"

definition getRecentTweets :: "env \<Rightarrow> string \<Rightarrow> Tweet list io" where
  "getRecentTweets e conversationId tr =
     (case getTweetThread e conversationId tr of
        (Inl err, tr1) \<Rightarrow> (Inl err, tr1)
      | (Inr thread, tr1) \<Rightarrow>
          if result_count (tweets_meta thread) = 0 then (Inr [], tr1)
          else (Inr (rev (getTweetsFromResponse thread)), tr1))"

section \<open>The scrape of the thread page\<close>

text \<open>
  What the script of \<^verbatim>\<open>page.evaluate\<close> reads of the rendered page. An element is its tag
  name, its inner HTML and its \<^verbatim>\<open>href\<close> attribute (\<^verbatim>\<open>getAttribute\<close> gives \<^verbatim>\<open>null\<close>
  without one). A document is, for every node of \<^verbatim>\<open>querySelectorAll('div[dir]')\<close>, its
  \<^verbatim>\<open>children[0]\<close>, and for every node of \<^verbatim>\<open>querySelectorAll('time')\<close> its
  \<^verbatim>\<open>parentElement\<close>, as the page has them at once and as it has them two seconds after a
  click on the button that shows the replies.
\<close>

record Element =
  tagName :: string
  innerHTML :: string
  hrefAttribute :: "string option"

record Document =
  divDirFirstChild :: "Element option list"
  timeParent :: "Element option list"
  timeParentClicked :: "Element option list"

text \<open>
  Puppeteer: a page, a browser context and a browser are what their methods answer. A
  method that resolves to nothing is \<open>None\<close> when it resolves and \<open>Some\<close> of the exception
  when it rejects; \<open>evaluate\<close> runs the script on the document unless it rejects. The
  size of the viewport and the options of the navigation (network idle, 60 seconds) are
  constants of the source with no part in what \<^verbatim>\<open>getTweetIds\<close> returns; the events leave
  them out.
\<close>

record Page =
  setViewport :: "error option"
  goto :: "string \<Rightarrow> error + Document"
  evaluate :: "error option"

record BrowserContext =
  newPage :: "error + Page"
  close :: "error option"

record Browser =
  createIncognitoBrowserContext :: "error + BrowserContext"

text \<open>
  \<^verbatim>\<open>/\/([^/]+)\/status\/(\d+)/\<close>, matched against the \<^verbatim>\<open>href\<close> of a time stamp: group 1 is
  the user name, group 2 the id.
\<close>

definition hrefPattern :: rx where
  "hrefPattern =
     Seq (lit ''/'')
    (Seq (Group 1 (Plus (Cls NotSlash)))
    (Seq (lit ''/status/'')
         (Group 2 (Plus (Cls Digit)))))"

text \<open>
  The button: the first \<^verbatim>\<open>div[dir]\<close> among those whose first child is a \<^verbatim>\<open>SPAN\<close> that
  reads \<^verbatim>\<open>Show replies\<close>.
\<close>

definition showRepliesButton :: "Document \<Rightarrow> Element option option" where
  "showRepliesButton document =
     find (\<lambda>node. case node of None \<Rightarrow> False | Some child \<Rightarrow> innerHTML child = ''Show replies'')
       (filter (\<lambda>node. case node of None \<Rightarrow> False | Some child \<Rightarrow> tagName child = ''SPAN'')
          (divDirFirstChild document))"

text \<open>
  One turn of the loop over the time nodes: the id that the turn pushes, if it pushes one.
  Every \<^verbatim>\<open>continue\<close> of the source is a \<open>None\<close>; so is a user name other than the author
  (\<^verbatim>\<open>username === author && ids.push(id)\<close>).
\<close>

definition idOfTimeNode :: "string \<Rightarrow> Element option \<Rightarrow> string option" where
  "idOfTimeNode author timeContainerAnchor =
     (case timeContainerAnchor of
        None \<Rightarrow> None
      | Some anchor \<Rightarrow>
          if tagName anchor = ''SPAN'' then None
          else
            (case hrefAttribute anchor of
               None \<Rightarrow> None
             | Some href \<Rightarrow>
                 if href = [] then None
                 else
                   (case search hrefPattern [] href of
                      None \<Rightarrow> None
                    | Some m \<Rightarrow>
                        (case (map_of (groups m) 2, map_of (groups m) 1) of
                           (Some id', Some username) \<Rightarrow> if username = author then Some id' else None
                         | _ \<Rightarrow> None))))"

fun collectIds :: "string \<Rightarrow> Element option list \<Rightarrow> string list \<Rightarrow> string list" where
  "collectIds author [] ids = ids"
| "collectIds author (timeNode # timeNodes) ids =
     collectIds author timeNodes
       (case idOfTimeNode author timeNode of None \<Rightarrow> ids | Some id' \<Rightarrow> ids @ [id'])"

definition pageScript :: "Document \<Rightarrow> string \<Rightarrow> string list" where
  "pageScript document author =
     collectIds author
       (if showRepliesButton document \<noteq> None then timeParentClicked document
        else timeParent document) []"

text \<open>The body of the \<^verbatim>\<open>try\<close> block of \<^verbatim>\<open>getTweetIds\<close>, after the context is there.\<close>

definition scrapePage :: "BrowserContext \<Rightarrow> string \<Rightarrow> string \<Rightarrow> string list io" where
  "scrapePage context pageURL author tr =
     (case newPage context of
        Inl err \<Rightarrow> (Inl err, tr @ [NewPage])
      | Inr page \<Rightarrow>
          (case setViewport page of
             Some err \<Rightarrow> (Inl err, tr @ [NewPage, SetViewport])
           | None \<Rightarrow>
               (case goto page pageURL of
                  Inl err \<Rightarrow> (Inl err, tr @ [NewPage, SetViewport, Goto pageURL])
                | Inr document \<Rightarrow>
                    (case evaluate page of
                       Some err \<Rightarrow> (Inl err, tr @ [NewPage, SetViewport, Goto pageURL, Evaluate])
                     | None \<Rightarrow>
                         (Inr (pageScript document author),
                          tr @ [NewPage, SetViewport, Goto pageURL, Evaluate])))))"

text \<open>
  \<^verbatim>\<open>getTweetIds\<close>: the \<^verbatim>\<open>catch\<close> turns an exception of the \<^verbatim>\<open>try\<close> block into the empty
  list; the \<^verbatim>\<open>finally\<close> closes the context if there is one, and an exception of
  \<^verbatim>\<open>context.close()\<close> leaves the function in place of the value returned.
\<close>

definition getTweetIds :: "Browser \<Rightarrow> string \<Rightarrow> string \<Rightarrow> string list io" where
  "getTweetIds browser tweetId author tr =
     (let pageURL = ''https://twitter.com/'' @ author @ ''/status/'' @ tweetId in
      case createIncognitoBrowserContext browser of
        Inl err \<Rightarrow>
          (Inr [], tr @ [CreateIncognitoBrowserContext, ConsoleError ''Error getting tweets''])
      | Inr context \<Rightarrow>
          (case scrapePage context pageURL author (tr @ [CreateIncognitoBrowserContext]) of
             (Inl err, tr1) \<Rightarrow>
               (case close context of
                  Some err' \<Rightarrow>
                    (Inl err', tr1 @ [ConsoleError ''Error getting tweets'', CloseContext])
                | None \<Rightarrow>
                    (Inr [], tr1 @ [ConsoleError ''Error getting tweets'', CloseContext]))
           | (Inr ids, tr1) \<Rightarrow>
               (case close context of
                  Some err' \<Rightarrow> (Inl err', tr1 @ [CloseContext])
                | None \<Rightarrow> (Inr ids, tr1 @ [CloseContext]))))"

definition getOldTweets :: "env \<Rightarrow> Browser \<Rightarrow> string \<Rightarrow> string \<Rightarrow> Tweet list io" where
  "getOldTweets e browser conversationId user tr =
     (case getTweetIds browser conversationId user tr of
        (Inl err, tr1) \<Rightarrow> (Inl err, tr1)
      | (Inr tweetIds, tr1) \<Rightarrow>
          if length tweetIds = 0 then (Inr [], tr1)
          else
            (case getTweetsByIds e tweetIds tr1 of
               (Inl err, tr2) \<Rightarrow> (Inl err, tr2)
             | (Inr response, tr2) \<Rightarrow> (Inr (getTweetsFromResponse response), tr2)))"

section \<open>The handler\<close>

definition shouldPreHandle :: "string \<Rightarrow> bool" where
  "shouldPreHandle u = (search TWITTER_URL_MATCH [] u \<noteq> None)"

definition contentOf :: "EmbedTweet \<Rightarrow> string \<Rightarrow> string \<Rightarrow> string" where
  \<open>contentOf embedTweet tweetText publisedDate =
     ''\<newline>''
     @ ''      <html>\<newline>''
     @ ''          <head>\<newline>''
     @ ''            <meta property="og:site_name" content="X (formerly Twitter)" />\<newline>''
     @ ''            <meta property="og:type" content="tweet" />\<newline>''
     @ ''            <meta property="dc:creator" content="'' @ author_name embedTweet @ ''" />\<newline>''
     @ ''            <meta property="twitter:description" content="'' @ tweetText @ ''" />\<newline>''
     @ ''            <meta property="article:published_time" content="'' @ publisedDate @ ''" />\<newline>''
     @ ''          </head>\<newline>''
     @ ''          <body>\<newline>''
     @ ''            <div>\<newline>''
     @ ''              '' @ html embedTweet @ ''\<newline>''
     @ ''            </div>\<newline>''
     @ ''          </body>\<newline>''
     @ ''      </html>''\<close>

definition preHandle :: "env \<Rightarrow> string \<Rightarrow> PreHandleResult io" where
  "preHandle e u tr =
     (case getEmbedTweet e u tr of
        (Inl err, tr1) \<Rightarrow> (Inl err, tr1)
      | (Inr embedTweet, tr1) \<Rightarrow>
          (let tweetText = (case textContent e (html embedTweet) ''p'' of None \<Rightarrow> [] | Some t \<Rightarrow> t);
               title = titleForTweet (author_name embedTweet) tweetText;
               publisedDate =
                 (case textContent e (html embedTweet) ''a[href*=\"/status/\"]'' of
                    None \<Rightarrow> []
                  | Some t \<Rightarrow> t)
           in (Inr \<lparr> result_content = contentOf embedTweet tweetText publisedDate, result_url = u,
                    result_title = title \<rparr>,
               tr1 @ [ConsoleLog ''embedTweet''])))"

section \<open>The unsubscribe address\<close>

text \<open>
  Of the \<^verbatim>\<open>URL\<close> that the platform builds from a text, \<^verbatim>\<open>parseUnsubscribeMailTo\<close> reads
  \<^verbatim>\<open>search\<close> and \<^verbatim>\<open>searchParams\<close> (names with their values, in order). The constructor
  is a parameter of the model, \<open>newURL\<close>: it answers with the URL or throws.
\<close>

record URL =
  url_search :: string
  url_searchParams :: "(string \<times> string) list"

record MailTo =
  to :: string
  subject :: string

record Email =
  email_to :: string
  email_subject :: string
  email_text :: string
  email_from :: string

definition UNSUBSCRIBE_EMAIL_TEXT :: string where
  "UNSUBSCRIBE_EMAIL_TEXT = ''This message was automatically generated by Omnivore.''"

text \<open>
  \<^verbatim>\<open>s.replace(pattern, replacement)\<close> for a pattern that is a string and a replacement
  without \<^verbatim>\<open>$\<close>: the first occurrence of the pattern is replaced; the empty pattern occurs
  at the start.
\<close>

fun replaceString :: "string \<Rightarrow> string \<Rightarrow> string \<Rightarrow> string" where
  "replaceString pattern replacement [] = (if pattern = [] then replacement else [])"
| "replaceString pattern replacement (c # s) =
     (if take (length pattern) (c # s) = pattern
      then replacement @ drop (length pattern) (c # s)
      else c # replaceString pattern replacement s)"

definition parseUnsubscribeMailTo :: "(string \<Rightarrow> error + URL) \<Rightarrow> string \<Rightarrow> error + MailTo" where
  "parseUnsubscribeMailTo newURL unsubscribeMailTo =
     (case newURL (''mailto://'' @ unsubscribeMailTo) of
        Inl err \<Rightarrow> Inl err
      | Inr parsed \<Rightarrow>
          (let subject =
                 (case map_of (url_searchParams parsed) ''subject'' of
                    None \<Rightarrow> ''Unsubscribe''
                  | Some v \<Rightarrow> if v = [] then ''Unsubscribe'' else v);
               to = replaceString (url_search parsed) [] unsubscribeMailTo
           in if to = [] \<or> CHR ''@'' \<notin> set to
              then Inl (Error (''Invalid unsubscribe email address: '' @ unsubscribeMailTo))
              else Inr \<lparr> to = to, subject = subject \<rparr>))"

text \<open>
  \<^verbatim>\<open>sendUnsubscribeEmail\<close>: the whole body is in a \<^verbatim>\<open>try\<close> whose \<^verbatim>\<open>catch\<close> returns
  \<^verbatim>\<open>false\<close>. \<open>sendEmail\<close> is the mailer of \<^verbatim>\<open>utils/sendEmail\<close>, a parameter.
\<close>

definition sendUnsubscribeEmail ::
  "(string \<Rightarrow> error + URL) \<Rightarrow> (Email \<Rightarrow> error + bool) \<Rightarrow> string \<Rightarrow> string \<Rightarrow> bool" where
  "sendUnsubscribeEmail newURL sendEmail unsubscribeMailTo newsletterEmail =
     (case parseUnsubscribeMailTo newURL unsubscribeMailTo of
        Inl err \<Rightarrow> False
      | Inr parsed \<Rightarrow>
          (case sendEmail \<lparr> email_to = to parsed, email_subject = subject parsed,
                            email_text = UNSUBSCRIBE_EMAIL_TEXT, email_from = newsletterEmail \<rparr> of
             Inl err \<Rightarrow> False
           | Inr sent \<Rightarrow> if \<not> sent then False else True))"

section \<open>What the claims speak of\<close>

subsection \<open>The language of a regular expression\<close>

definition conc :: "string set \<Rightarrow> string set \<Rightarrow> string set" where
  "conc A B = {u @ v | u v. u \<in> A \<and> v \<in> B}"

inductive_set star :: "string set \<Rightarrow> string set" for A :: "string set" where
  star_Nil: "[] \<in> star A"
| star_App: "u \<in> A \<Longrightarrow> v \<in> star A \<Longrightarrow> u @ v \<in> star A"

fun lang :: "rx \<Rightarrow> string set" where
  "lang (Lit c) = {[c]}"
| "lang (Cls k) = {[c] | c. inCls k c}"
| "lang Eps = {[]}"
| "lang (Seq a b) = conc (lang a) (lang b)"
| "lang (Alt a b) = lang a \<union> lang b"
| "lang (Star a) = star (lang a)"
| "lang (Group n a) = lang a"

text \<open>The texts that are left of \<open>s\<close> after a word of \<open>r\<close> at its start.\<close>

definition rests :: "rx \<Rightarrow> string \<Rightarrow> string set" where
  "rests r s = {s'. \<exists>w. w \<in> lang r \<and> s = w @ s'}"

subsection \<open>The pattern of a status URL\<close>

text \<open>
  The pattern in the words of the specification:
  \<^verbatim>\<open>platformDomain/(optional-legacy-prefix/)handle/status(es)?/digits(/optional-suffix)\<close>.
  The domain is \<^verbatim>\<open>twitter.com\<close> or \<^verbatim>\<open>x.com\<close>, the legacy prefix \<^verbatim>\<open>#!\<close>, the handle is one or
  more letters, digits and underscores, the suffix stays on its line. A URL matches when
  it has such a text somewhere in it.
\<close>

definition statusUrlShape :: "string \<Rightarrow> bool" where
  "statusUrlShape w =
     (\<exists>domain legacy handle es digits suffix.
        w = domain @ ''.com/'' @ legacy @ handle @ ''/status'' @ es @ ''/'' @ digits @ suffix
        \<and> (domain = ''twitter'' \<or> domain = ''x'')
        \<and> (legacy = [] \<or> legacy = ''#!/'')
        \<and> handle \<noteq> [] \<and> list_all (inCls Word) handle
        \<and> (es = [] \<or> es = ''es'')
        \<and> digits \<noteq> [] \<and> list_all (inCls Digit) digits
        \<and> (suffix = [] \<or> (\<exists>t. suffix = CHR ''/'' # t \<and> list_all (inCls Dot) t)))"

definition matchesStatusUrl :: "string \<Rightarrow> bool" where
  "matchesStatusUrl u = (\<exists>pre w post. u = pre @ w @ post \<and> statusUrlShape w)"

subsection \<open>The URLs of a post's text\<close>

text \<open>
  A URL occurs at position \<open>i\<close> of a text when \<^verbatim>\<open>http\<close> stands there with a character after
  it that is no white space; the URL goes on as far as such characters go.
\<close>

definition urlAt :: "string \<Rightarrow> nat \<Rightarrow> bool" where
  "urlAt text i =
     (take 4 (drop i text) = ''http'' \<and> i + 4 < length text \<and> inCls NonSpace (text ! (i + 4)))"

subsection \<open>Author records\<close>

text \<open>
  The author records that a post of the output carries for its own author: the users
  among \<^verbatim>\<open>includes.users\<close> whose id is the post's \<^verbatim>\<open>author_id\<close>.
\<close>

definition authorRecords :: "Tweet \<Rightarrow> User list" where
  "authorRecords t =
     filter (\<lambda>u. user_id u = author_id (tweet_data t)) (users (tweet_includes t))"

definition oneAuthorRecord :: "Tweet \<Rightarrow> bool" where
  "oneAuthorRecord t = (length (authorRecords t) = 1)"

text \<open>A response of one post whose user list names the post's author twice.\<close>

definition post7 :: TweetData where
  "post7 =
     \<lparr> author_id = ''7'', tweet_text = ''hello'', entities = \<lparr> urls = [] \<rparr>,
       created_at = ''2023-05-01T10:00:00.000Z'', referenced_tweets = [],
       conversation_id = ''100'', attachments = None \<rparr>"

definition user7 :: "string \<Rightarrow> User" where
  "user7 n =
     \<lparr> user_id = ''7'', user_name = n, profile_image_url = ''p.png'', user_username = ''seven'' \<rparr>"

definition twiceListed :: Tweets where
  "twiceListed =
     \<lparr> tweets_data = [post7],
       tweets_includes = \<lparr> users = [user7 ''Seven'', user7 ''Seven again''], media = None \<rparr>,
       tweets_meta = \<lparr> result_count = 1 \<rparr> \<rparr>"

subsection \<open>Fetch strategies in a trace\<close>

text \<open>
  The recency path is in a trace when the trace has a GET of the recent search, the scrape
  path when it has the creation of a browser context, the bulk resolution when it has a
  GET of posts by their ids. A lookup uses exactly one strategy when its trace has the
  recency path or the scrape path and not both.
\<close>

definition recencyRequest :: "event \<Rightarrow> bool" where
  "recencyRequest ev =
     (case ev of
        AxiosGet u h \<Rightarrow> take 46 u = ''https://api.twitter.com/2/tweets/search/recent''
      | _ \<Rightarrow> False)"

definition bulkRequest :: "event \<Rightarrow> bool" where
  "bulkRequest ev =
     (case ev of
        AxiosGet u h \<Rightarrow> take 37 u = ''https://api.twitter.com/2/tweets?ids=''
      | _ \<Rightarrow> False)"

definition scrapeCall :: "event \<Rightarrow> bool" where
  "scrapeCall ev = (ev = CreateIncognitoBrowserContext)"

definition usesRecency :: "event list \<Rightarrow> bool" where
  "usesRecency tr = list_ex recencyRequest tr"

definition usesScrape :: "event list \<Rightarrow> bool" where
  "usesScrape tr = list_ex scrapeCall tr"

definition oneStrategy :: "event list \<Rightarrow> bool" where
  "oneStrategy tr = (usesRecency tr \<noteq> usesScrape tr)"

subsection \<open>Order by time of creation\<close>




subsection \<open>A browser that closes\<close>


subsection \<open>Worlds to run the handler in\<close>

definition early :: TweetData where
  "early =
     \<lparr> author_id = ''7'', tweet_text = ''first'', entities = \<lparr> urls = [] \<rparr>,
       created_at = ''2023-05-01T10:00:00.000Z'', referenced_tweets = [],
       conversation_id = ''1'', attachments = None \<rparr>"

definition late :: TweetData where
  "late =
     \<lparr> author_id = ''7'', tweet_text = ''second'', entities = \<lparr> urls = [] \<rparr>,
       created_at = ''2023-05-02T10:00:00.000Z'', referenced_tweets = [],
       conversation_id = ''1'', attachments = None \<rparr>"

definition byIds :: Tweets where
  "byIds =
     \<lparr> tweets_data = [late, early],
       tweets_includes = \<lparr> users = [user7 ''Seven''], media = None \<rparr>,
       tweets_meta = \<lparr> result_count = 2 \<rparr> \<rparr>"

definition recent :: Tweets where
  "recent =
     \<lparr> tweets_data = [late, early, early],
       tweets_includes = \<lparr> users = [user7 ''Seven''], media = None \<rparr>,
       tweets_meta = \<lparr> result_count = 3 \<rparr> \<rparr>"

definition embedded :: EmbedTweet where
  \<open>embedded =
     \<lparr> author_name = ''Seven'', author_url = ''https://twitter.com/seven'', cache_age = ''3153600000'',
       height = 0, html = ''<blockquote><p>see http://a and http://b</p></blockquote>'',
       provider_name = ''Twitter'', provider_url = ''https://twitter.com'', embed_type = ''rich'',
       embed_url = ''https://twitter.com/seven/status/1'', version = ''1.0'', width = 550 \<rparr>\<close>

text \<open>
  A world with a token, in which the search answers \<open>recent\<close>, the lookup by ids answers
  \<open>byIds\<close> and the embed service answers \<open>embedded\<close>; and the same world without a token.
\<close>

definition online :: env where
  "online =
     \<lparr> TWITTER_BEARER_TOKEN = Some ''token'',
       axiosGetTweets =
         (\<lambda>u h. if take 37 u = ''https://api.twitter.com/2/tweets?ids='' then Inr byIds
                else Inr recent),
       axiosGetEmbed = (\<lambda>u. Inr embedded),
       textContent =
         (\<lambda>h selector. if selector = ''p'' then Some ''see http://a and http://b''
                        else Some ''May 1, 2023'') \<rparr>"

definition noCredential :: env where
  "noCredential = online \<lparr> TWITTER_BEARER_TOKEN := None \<rparr>"

text \<open>
  A thread page with three time stamps, the second of another author; and browsers that
  show it, that fail to navigate, and that fail to navigate and then to close.
\<close>

definition anchorTo :: "string \<Rightarrow> Element option" where
  "anchorTo h = Some \<lparr> tagName = ''A'', innerHTML = [], hrefAttribute = Some h \<rparr>"

definition threadPage :: Document where
  "threadPage =
     \<lparr> divDirFirstChild = [],
       timeParent = [anchorTo ''/a/status/2'', anchorTo ''/b/status/3'', anchorTo ''/a/status/1''],
       timeParentClicked = [] \<rparr>"

definition browserOf :: "(string \<Rightarrow> error + Document) \<Rightarrow> error option \<Rightarrow> Browser" where
  "browserOf navigate closing =
     \<lparr> createIncognitoBrowserContext =
         Inr \<lparr> newPage = Inr \<lparr> setViewport = None, goto = navigate, evaluate = None \<rparr>,
               close = closing \<rparr> \<rparr>"

definition showing :: Browser where
  "showing = browserOf (\<lambda>u. Inr threadPage) None"



text \<open>
  What the \<^verbatim>\<open>URL\<close> constructor of the platform answers for \<^verbatim>\<open>mailto://\<close> followed by the
  addresses of the examples; no other text is asked of it.
\<close>

definition exampleURLs :: "string \<Rightarrow> error + URL" where
  "exampleURLs s =
     (if s = ''mailto://list@example.com?subject=Stop''
      then Inr \<lparr> url_search = ''?subject=Stop'', url_searchParams = [(''subject'', ''Stop'')] \<rparr>
      else if s = ''mailto://list@example.com'' \<or> s = ''mailto://example.com''
      then Inr \<lparr> url_search = [], url_searchParams = [] \<rparr>
      else Inl (Rejected ''Invalid URL''))"

section \<open>The matcher and the language\<close>

lemma star_cases_nonempty:
  "w \<in> star A \<Longrightarrow> w = [] \<or> (\<exists>u v. w = u @ v \<and> u \<noteq> [] \<and> u \<in> A \<and> v \<in> star A)"
proof (induction rule: star.induct)
  case star_Nil
  then show ?case by simp
next
  case (star_App u v)
  show ?case
  proof (cases "u = []")
    case True
    with star_App.IH show ?thesis by simp
  next
    case False
    with star_App.hyps show ?thesis by blast
  qed
qed

lemma rests_Seq: "rests (Seq a b) s = (\<Union>s1 \<in> rests a s. rests b s1)"
  by (fastforce simp: rests_def conc_def)

lemma rests_Star:
  "rests (Star a) s = insert s (\<Union>s1 \<in> {t \<in> rests a s. length t < length s}. rests (Star a) s1)"
proof (intro set_eqI iffI)
  fix s' assume "s' \<in> rests (Star a) s"
  then obtain w where w: "w \<in> star (lang a)" "s = w @ s'" by (auto simp: rests_def)
  from star_cases_nonempty[OF w(1)] show "s' \<in> insert s (\<Union>s1 \<in> {t \<in> rests a s. length t < length s}. rests (Star a) s1)"
  proof
    assume "w = []" with w show ?thesis by simp
  next
    assume "\<exists>u v. w = u @ v \<and> u \<noteq> [] \<and> u \<in> lang a \<and> v \<in> star (lang a)"
    then obtain u v where uv: "w = u @ v" "u \<noteq> []" "u \<in> lang a" "v \<in> star (lang a)" by blast
    have "v @ s' \<in> {t \<in> rests a s. length t < length s}"
      using uv w by (auto simp: rests_def)
    moreover have "s' \<in> rests (Star a) (v @ s')"
      using uv by (auto simp: rests_def)
    ultimately show ?thesis by blast
  qed
next
  fix s' assume "s' \<in> insert s (\<Union>s1 \<in> {t \<in> rests a s. length t < length s}. rests (Star a) s1)"
  then show "s' \<in> rests (Star a) s"
  proof
    assume "s' = s" then show ?thesis by (auto simp: rests_def intro: star_Nil)
  next
    assume "s' \<in> (\<Union>s1 \<in> {t \<in> rests a s. length t < length s}. rests (Star a) s1)"
    then obtain s1 u v where "u \<in> lang a" "s = u @ s1" "v \<in> star (lang a)" "s1 = v @ s'"
      by (auto simp: rests_def)
    then have "u @ v \<in> star (lang a)" "s = (u @ v) @ s'" by (auto intro: star_App)
    then show ?thesis unfolding rests_def lang.simps by blast
  qed
qed

lemma run_rests: "fst ` set (run r st) = rests r (fst st)"
proof (induction r st rule: run.induct)
  case (1 c s cs)
  then show ?case by (auto simp: run.simps rests_def split: list.splits)
next
  case (2 k s cs)
  then show ?case by (auto simp: run.simps rests_def split: list.splits)
next
  case (3 s cs)
  then show ?case by (auto simp: run.simps rests_def)
next
  case (4 a b s cs)
  have "fst ` set (run (Seq a b) (s, cs)) = (\<Union>x \<in> set (run a (s, cs)). fst ` set (run b x))"
    by (simp add: run.simps image_UN)
  also have "\<dots> = (\<Union>x \<in> set (run a (s, cs)). rests b (fst x))"
    using 4(2) by simp
  also have "\<dots> = (\<Union>s1 \<in> fst ` set (run a (s, cs)). rests b s1)"
    by blast
  also have "\<dots> = rests (Seq a b) s"
    using 4(1) by (simp add: rests_Seq)
  finally show ?case by simp
next
  case (5 a b s cs)
  then show ?case by (auto simp: run.simps rests_def image_Un)
next
  case (6 a s cs)
  let ?F = "filter (\<lambda>st. length (fst st) < length s) (run a (s, cs))"
  have unfold: "run (Star a) (s, cs) = concat (map (run (Star a)) ?F) @ [(s, cs)]"
    by (rule run.simps)
  have "fst ` set (run (Star a) (s, cs)) = insert s (\<Union>x \<in> set ?F. fst ` set (run (Star a) x))"
    by (subst unfold) (simp add: image_Un image_UN)
  also have "\<dots> = insert s (\<Union>x \<in> set ?F. rests (Star a) (fst x))"
    using 6(2) by simp
  also have "\<dots> = insert s (\<Union>s1 \<in> fst ` set ?F. rests (Star a) s1)"
    by blast
  also have "fst ` set ?F = {t \<in> rests a s. length t < length s}"
    using 6(1) by (auto simp: image_iff)
  also have "insert s (\<Union>s1 \<in> {t \<in> rests a s. length t < length s}. rests (Star a) s1) = rests (Star a) s"
    by (rule rests_Star[symmetric])
  finally show ?case by simp
next
  case (7 n a s cs)
  then show ?case by (simp add: run.simps image_image rests_def)
qed

lemma matchAt_None: "(matchAt r pre s = None) = (run r (s, []) = [])"
  by (simp add: matchAt_def split: list.splits)

lemma search_None: "(search r pre s = None) = (\<forall>i \<le> length s. run r (drop i s, []) = [])"
proof (induction s arbitrary: pre)
  case Nil
  show ?case by (simp add: matchAt_None)
next
  case (Cons c s)
  have "(\<forall>i \<le> length (c # s). run r (drop i (c # s), []) = []) =
        (run r (c # s, []) = [] \<and> (\<forall>i \<le> length s. run r (drop i s, []) = []))"
  proof
    assume a: "\<forall>i \<le> length (c # s). run r (drop i (c # s), []) = []"
    have "run r (c # s, []) = []" using a[rule_format, of 0] by simp
    moreover have "run r (drop i s, []) = []" if "i \<le> length s" for i
      using a[rule_format, of "Suc i"] that by simp
    ultimately show "run r (c # s, []) = [] \<and> (\<forall>i \<le> length s. run r (drop i s, []) = [])"
      by simp
  next
    assume a: "run r (c # s, []) = [] \<and> (\<forall>i \<le> length s. run r (drop i s, []) = [])"
    show "\<forall>i \<le> length (c # s). run r (drop i (c # s), []) = []"
    proof (intro allI impI)
      fix i assume "i \<le> length (c # s)"
      then show "run r (drop i (c # s), []) = []" using a by (cases i) simp_all
    qed
  qed
  note split = this
  show ?case
  proof (cases "matchAt r pre (c # s)")
    case None
    then have "run r (c # s, []) = []" by (simp add: matchAt_None)
    with None split Cons.IH[of "pre @ [c]"] show ?thesis by simp
  next
    case (Some m)
    then have "run r (c # s, []) \<noteq> []" using matchAt_None[of r pre "c # s"] by simp
    with Some split show ?thesis by simp
  qed
qed

lemma run_Nil_rests: "(run r (s, cs) = []) = (rests r s = {})"
  using run_rests[of r "(s, cs)"] by (metis fst_conv image_is_empty set_empty)

lemma search_lang:
  "(search r pre s \<noteq> None) = (\<exists>u w v. s = u @ w @ v \<and> w \<in> lang r)"
proof -
  have "(search r pre s \<noteq> None) = (\<exists>i \<le> length s. rests r (drop i s) \<noteq> {})"
    by (simp add: search_None run_Nil_rests)
  also have "\<dots> = (\<exists>u w v. s = u @ w @ v \<and> w \<in> lang r)"
  proof
    assume "\<exists>i \<le> length s. rests r (drop i s) \<noteq> {}"
    then obtain i w v where "w \<in> lang r" "drop i s = w @ v" by (auto simp: rests_def)
    then have "s = take i s @ w @ v" by (metis append_take_drop_id)
    with \<open>w \<in> lang r\<close> show "\<exists>u w v. s = u @ w @ v \<and> w \<in> lang r" by blast
  next
    assume "\<exists>u w v. s = u @ w @ v \<and> w \<in> lang r"
    then obtain u w v where "s = u @ w @ v" "w \<in> lang r" by blast
    then have "length u \<le> length s" "v \<in> rests r (drop (length u) s)" by (auto simp: rests_def)
    then show "\<exists>i \<le> length s. rests r (drop i s) \<noteq> {}" by blast
  qed
  finally show ?thesis .
qed

lemma run_lit:
  "run (lit w) (s, cs) = (if take (length w) s = w then [(drop (length w) s, cs)] else [])"
proof (induction w arbitrary: s)
  case Nil
  show ?case by (simp add: lit_def run.simps)
next
  case (Cons c w)
  have "lit (c # w) = Seq (Lit c) (lit w)" by (simp add: lit_def)
  then show ?case using Cons.IH by (cases s) (auto simp: run.simps)
qed

lemma lang_lit: "lang (lit w) = {w}"
  by (induction w) (auto simp: lit_def conc_def)

lemma lang_Opt: "lang (Opt a) = insert [] (lang a)"
  by (auto simp: Opt_def)

lemma star_Cls: "star {[c] | c. P c} = {w. list_all P w}"
proof (intro set_eqI iffI)
  fix w assume "w \<in> star {[c] | c. P c}"
  then show "w \<in> {w. list_all P w}" by (induction rule: star.induct) auto
next
  fix w assume "w \<in> {w. list_all P w}"
  then have "list_all P w" by simp
  then show "w \<in> star {[c] | c. P c}"
  proof (induction w)
    case Nil
    show ?case by (rule star_Nil)
  next
    case (Cons c w)
    then have "[c] \<in> {[c] | c. P c}" "w \<in> star {[c] | c. P c}" by auto
    then have "[c] @ w \<in> star {[c] | c. P c}" by (rule star_App)
    then show ?case by simp
  qed
qed

lemma lang_Star_Cls: "lang (Star (Cls k)) = {w. list_all (inCls k) w}"
  by (simp add: star_Cls)

lemma lang_Plus_Cls: "lang (Plus (Cls k)) = {w. w \<noteq> [] \<and> list_all (inCls k) w}"
proof -
  have "lang (Plus (Cls k)) = conc {[c] | c. inCls k c} {w. list_all (inCls k) w}"
    by (simp add: Plus_def star_Cls)
  also have "\<dots> = {w. w \<noteq> [] \<and> list_all (inCls k) w}"
  proof (intro set_eqI iffI)
    fix w assume "w \<in> conc {[c] | c. inCls k c} {w. list_all (inCls k) w}"
    then show "w \<in> {w. w \<noteq> [] \<and> list_all (inCls k) w}" by (auto simp: conc_def)
  next
    fix w assume "w \<in> {w. w \<noteq> [] \<and> list_all (inCls k) w}"
    then obtain c v where "w = [c] @ v" "inCls k c" "list_all (inCls k) v" by (cases w) auto
    then show "w \<in> conc {[c] | c. inCls k c} {w. list_all (inCls k) w}"
      unfolding conc_def by blast
  qed
  finally show ?thesis .
qed

lemma run_Star_Cls:
  "run (Star (Cls k)) (s, cs) =
     map (\<lambda>i. (drop i s, cs)) (rev [0..<Suc (length (takeWhile (inCls k) s))])"
proof (induction s)
  case Nil
  show ?case by (simp add: run.simps)
next
  case (Cons x xs)
  show ?case
  proof (cases "inCls k x")
    case False
    then show ?thesis by (simp add: run.simps)
  next
    case True
    let ?n = "length (takeWhile (inCls k) xs)"
    have "run (Star (Cls k)) (x # xs, cs) = run (Star (Cls k)) (xs, cs) @ [(x # xs, cs)]"
      using True by (simp add: run.simps)
    also have "\<dots> = map (\<lambda>i. (drop i xs, cs)) (rev [0..<Suc ?n]) @ [(x # xs, cs)]"
      by (simp only: Cons.IH)
    also have "\<dots> = map (\<lambda>i. (drop i (x # xs), cs)) (rev (map Suc [0..<Suc ?n])) @ [(x # xs, cs)]"
      by (simp add: rev_map comp_def del: upt_Suc)
    also have "\<dots> = map (\<lambda>i. (drop i (x # xs), cs)) (rev (0 # map Suc [0..<Suc ?n]))"
      by simp
    also have "0 # map Suc [0..<Suc ?n] = [0..<Suc (Suc ?n)]"
      by (simp only: map_Suc_upt upt_conv_Cons[of 0, symmetric] zero_less_Suc)
    finally show ?thesis using True by simp
  qed
qed

lemma concI: "u \<in> A \<Longrightarrow> v \<in> B \<Longrightarrow> u @ v \<in> conc A B"
  by (auto simp: conc_def)

lemma concE: "w \<in> conc A B \<Longrightarrow> (\<And>u v. w = u @ v \<Longrightarrow> u \<in> A \<Longrightarrow> v \<in> B \<Longrightarrow> P) \<Longrightarrow> P"
  by (auto simp: conc_def)

lemma conc_chain:
  "(w \<in> conc S1 (conc S2 (conc S3 (conc S4 (conc S5 (conc S6 (conc S7 (conc S8 S9)))))))) =
   (\<exists>u1 u2 u3 u4 u5 u6 u7 u8 u9. w = u1 @ u2 @ u3 @ u4 @ u5 @ u6 @ u7 @ u8 @ u9
      \<and> u1 \<in> S1 \<and> u2 \<in> S2 \<and> u3 \<in> S3 \<and> u4 \<in> S4 \<and> u5 \<in> S5 \<and> u6 \<in> S6 \<and> u7 \<in> S7
      \<and> u8 \<in> S8 \<and> u9 \<in> S9)"
proof
  assume "w \<in> conc S1 (conc S2 (conc S3 (conc S4 (conc S5 (conc S6 (conc S7 (conc S8 S9)))))))"
  then show "\<exists>u1 u2 u3 u4 u5 u6 u7 u8 u9. w = u1 @ u2 @ u3 @ u4 @ u5 @ u6 @ u7 @ u8 @ u9
      \<and> u1 \<in> S1 \<and> u2 \<in> S2 \<and> u3 \<in> S3 \<and> u4 \<in> S4 \<and> u5 \<in> S5 \<and> u6 \<in> S6 \<and> u7 \<in> S7
      \<and> u8 \<in> S8 \<and> u9 \<in> S9"
    by (elim concE) (intro exI conjI, hypsubst, rule refl, assumption+)
next
  assume "\<exists>u1 u2 u3 u4 u5 u6 u7 u8 u9. w = u1 @ u2 @ u3 @ u4 @ u5 @ u6 @ u7 @ u8 @ u9
      \<and> u1 \<in> S1 \<and> u2 \<in> S2 \<and> u3 \<in> S3 \<and> u4 \<in> S4 \<and> u5 \<in> S5 \<and> u6 \<in> S6 \<and> u7 \<in> S7
      \<and> u8 \<in> S8 \<and> u9 \<in> S9"
  then show "w \<in> conc S1 (conc S2 (conc S3 (conc S4 (conc S5 (conc S6 (conc S7 (conc S8 S9)))))))"
    by (elim exE conjE) (hypsubst, intro concI, assumption+)
qed

lemma lang_TWITTER_URL_MATCH: "(w \<in> lang TWITTER_URL_MATCH) = statusUrlShape w"
proof -
  have "lang TWITTER_URL_MATCH =
     conc {''twitter'', ''x''} (conc {''.com/''} (conc {[], ''#!/''}
       (conc {h. h \<noteq> [] \<and> list_all (inCls Word) h} (conc {''/status''} (conc {[], ''es''}
       (conc {''/''} (conc {d. d \<noteq> [] \<and> list_all (inCls Digit) d}
          (insert [] (conc {''/''} {t. list_all (inCls Dot) t})))))))))"
    unfolding TWITTER_URL_MATCH_def lang.simps(4) lang.simps(7) lang.simps(5) lang_lit lang_Opt
      lang_Plus_Cls lang_Star_Cls
    by (simp add: insert_commute)
  also have "(w \<in> \<dots>) = statusUrlShape w"
    unfolding conc_chain statusUrlShape_def
    by (simp add: conc_def)
  finally show ?thesis .
qed

lemma search_SomeI:
  "i \<le> length s \<Longrightarrow> matchAt r (pre @ take i s) (drop i s) = Some m \<Longrightarrow>
   (\<forall>j<i. run r (drop j s, []) = []) \<Longrightarrow> search r pre s = Some m"
proof (induction s arbitrary: pre i)
  case Nil
  then show ?case by simp
next
  case (Cons c s)
  show ?case
  proof (cases i)
    case 0
    with Cons.prems show ?thesis by simp
  next
    case (Suc k)
    have none: "matchAt r pre (c # s) = None"
      using Cons.prems(3)[rule_format, of 0] Suc by (simp add: matchAt_None)
    have "\<forall>j<k. run r (drop j s, []) = []"
    proof (intro allI impI)
      fix j assume "j < k"
      then show "run r (drop j s, []) = []"
        using Cons.prems(3)[rule_format, of "Suc j"] Suc by simp
    qed
    moreover have "k \<le> length s" "matchAt r ((pre @ [c]) @ take k s) (drop k s) = Some m"
      using Cons.prems(1,2) Suc by simp_all
    ultimately have "search r (pre @ [c]) s = Some m" by (rule Cons.IH[rotated 2])
    with none show ?thesis by simp
  qed
qed

lemma search_SomeD:
  "search r pre s = Some m \<Longrightarrow>
   \<exists>i \<le> length s. matchAt r (pre @ take i s) (drop i s) = Some m"
proof (induction s arbitrary: pre)
  case Nil
  then show ?case by simp
next
  case (Cons c s)
  show ?case
  proof (cases "matchAt r pre (c # s)")
    case (Some m')
    with Cons.prems have "matchAt r (pre @ take 0 (c # s)) (drop 0 (c # s)) = Some m" by simp
    then show ?thesis by blast
  next
    case None
    with Cons.prems have "search r (pre @ [c]) s = Some m" by simp
    from Cons.IH[OF this] obtain i where "i \<le> length s"
      "matchAt r ((pre @ [c]) @ take i s) (drop i s) = Some m" by blast
    then have "Suc i \<le> length (c # s)"
      "matchAt r (pre @ take (Suc i) (c # s)) (drop (Suc i) (c # s)) = Some m" by simp_all
    then show ?thesis by blast
  qed
qed

lemma run_Plus_Cls:
  "run (Plus (Cls k)) (s, cs) =
     map (\<lambda>i. (drop i s, cs)) (rev [1..<Suc (length (takeWhile (inCls k) s))])"
proof (cases s)
  case Nil
  then show ?thesis by (simp add: Plus_def run.simps)
next
  case (Cons x xs)
  show ?thesis
  proof (cases "inCls k x")
    case False
    with Cons show ?thesis by (simp add: Plus_def run.simps)
  next
    case True
    let ?n = "length (takeWhile (inCls k) xs)"
    have "run (Plus (Cls k)) (s, cs) = run (Star (Cls k)) (xs, cs)"
      using True Cons by (simp add: Plus_def run.simps)
    also have "\<dots> = map (\<lambda>i. (drop i xs, cs)) (rev [0..<Suc ?n])"
      by (rule run_Star_Cls)
    also have "\<dots> = map (\<lambda>i. (drop i s, cs)) (rev (map Suc [0..<Suc ?n]))"
      using Cons by (simp add: rev_map comp_def del: upt_Suc)
    also have "map Suc [0..<Suc ?n] = [1..<Suc (Suc ?n)]"
      by (simp only: map_Suc_upt One_nat_def)
    finally show ?thesis using True Cons by simp
  qed
qed

lemma run_Group_Plus_Cls:
  "run (Group n (Plus (Cls k))) (s, cs) =
     map (\<lambda>i. (drop i s, (n, take i s) # cs)) (rev [1..<Suc (length (takeWhile (inCls k) s))])"
proof -
  have "i \<le> length s" if "i \<in> set [1..<Suc (length (takeWhile (inCls k) s))]" for i
    using that length_takeWhile_le[of "inCls k" s] by auto
  then show ?thesis
    by (simp add: run.simps(7) run_Plus_Cls comp_def min_def del: upt_Suc)
qed

lemma take_le_takeWhile:
  "i \<le> length (takeWhile P s) \<Longrightarrow> list_all P (take i s)"
proof -
  assume "i \<le> length (takeWhile P s)"
  then have "take i s = take i (takeWhile P s)"
    by (metis append_eq_conv_conj takeWhile_dropWhile_id take_all_iff take_append take_take min.absorb1 length_take)
  moreover have "list_all P (takeWhile P s)"
    by (simp add: list_all_iff) (meson set_takeWhileD)
  ultimately show ?thesis
    by (metis list_all_append append_take_drop_id)
qed

lemma urlAt_drop: "urlAt (drop j s) 0 = urlAt s j"
  by (auto simp: urlAt_def add.commute)

lemma run_httpPattern:
  "run httpPattern (s, cs) =
     (if take 4 s = ''http''
      then map (\<lambda>i. (drop (i + 4) s, cs))
             (rev [1..<Suc (length (takeWhile (inCls NonSpace) (drop 4 s)))])
      else [])"
proof -
  have len: "length ''http'' = 4" by simp
  have "run (lit ''http'') (s, cs) = (if take 4 s = ''http'' then [(drop 4 s, cs)] else [])"
    using run_lit[of "''http''" s cs] by (simp only: len)
  then show ?thesis
    by (simp add: httpPattern_def run.simps(4) run_Plus_Cls del: upt_Suc)
qed

lemma takeWhile_Nil_iff: "(takeWhile P s = []) = (s = [] \<or> \<not> P (hd s))"
  by (cases s) auto

lemma matchAt_httpPattern_None: "\<not> urlAt s 0 \<Longrightarrow> run httpPattern (s, []) = []"
proof -
  assume n: "\<not> urlAt s 0"
  show ?thesis
  proof (cases "take 4 s = ''http''")
    case False
    then show ?thesis by (simp add: run_httpPattern)
  next
    case True
    with n have "\<not> (4 < length s \<and> inCls NonSpace (s ! 4))" by (simp add: urlAt_def)
    then have "drop 4 s = [] \<or> \<not> inCls NonSpace (hd (drop 4 s))"
      by (auto simp: hd_drop_conv_nth)
    then have "takeWhile (inCls NonSpace) (drop 4 s) = []"
      by (simp add: takeWhile_Nil_iff)
    then show ?thesis by (simp add: run_httpPattern)
  qed
qed

lemma matchAt_httpPattern_Some:
  assumes "urlAt s 0"
  shows "\<exists>m. matchAt httpPattern pre s = Some m \<and> before m = pre
           \<and> after m = dropWhile (inCls NonSpace) (drop 4 s)"
proof -
  let ?n = "length (takeWhile (inCls NonSpace) (drop 4 s))"
  from assms have h: "take 4 s = ''http''" "4 < length s" "inCls NonSpace (s ! 4)"
    by (simp_all add: urlAt_def)
  then have "\<not> (drop 4 s = [] \<or> \<not> inCls NonSpace (hd (drop 4 s)))"
    by (simp add: hd_drop_conv_nth)
  then have "takeWhile (inCls NonSpace) (drop 4 s) \<noteq> []"
    by (simp add: takeWhile_Nil_iff)
  then have "Suc 0 \<le> ?n"
    by (cases "takeWhile (inCls NonSpace) (drop 4 s)") simp_all
  then have "[1..<Suc ?n] = [1..<?n] @ [?n]" by simp
  then have "run httpPattern (s, []) =
      (drop (?n + 4) s, []) # map (\<lambda>i. (drop (i + 4) s, [])) (rev [1..<?n])"
    using h(1) by (simp add: run_httpPattern del: upt_Suc)
  moreover have "drop (?n + 4) s = dropWhile (inCls NonSpace) (drop 4 s)"
    by (metis append_eq_conv_conj drop_drop takeWhile_dropWhile_id)
  ultimately show ?thesis by (simp add: matchAt_def)
qed

lemma less4: "(\<forall>j<4::nat. P j) = (P 0 \<and> P 1 \<and> P 2 \<and> P 3)"
  by (simp add: numeral_eq_Suc All_less_Suc conj_ac)

section \<open>The status URL\<close>

text \<open>
  Claim C5: \<^verbatim>\<open>shouldPreHandle\<close> is a function of the URL alone (it takes no trace and
  returns none, so it calls nothing outside), true for every URL that matches the pattern
  of a status URL and false for every other URL.
\<close>

theorem shouldPreHandle_iff: "shouldPreHandle u = matchesStatusUrl u"
  by (simp only: shouldPreHandle_def search_lang lang_TWITTER_URL_MATCH matchesStatusUrl_def)

text \<open>
  A match always captures the handle, so \<^verbatim>\<open>tweetIdFromStatusUrl\<close> answers \<^verbatim>\<open>undefined\<close>
  for the URLs that do not match the pattern and for no other URL.
\<close>

lemma run_keeps_captures:
  "st' \<in> set (run r st) \<Longrightarrow> map_of (snd st) n \<noteq> None \<Longrightarrow> map_of (snd st') n \<noteq> None"
proof (induction r st arbitrary: st' rule: run.induct)
  case (1 c s cs)
  then show ?case by (auto simp: run.simps split: list.splits if_splits)
next
  case (2 k s cs)
  then show ?case by (auto simp: run.simps split: list.splits if_splits)
next
  case (3 s cs)
  then show ?case by (simp add: run.simps)
next
  case (4 a b s cs)
  from 4(3) obtain x where x: "x \<in> set (run a (s, cs))" "st' \<in> set (run b x)"
    by (auto simp: run.simps)
  from 4(1)[OF x(1) 4(4)] have "map_of (snd x) n \<noteq> None" .
  from 4(2)[OF x(1) x(2) this] show ?case .
next
  case (5 a b s cs)
  from 5(3) have "st' \<in> set (run a (s, cs)) \<or> st' \<in> set (run b (s, cs))"
    by (simp add: run.simps)
  then show ?case
  proof
    assume "st' \<in> set (run a (s, cs))"
    from 5(1)[OF this 5(4)] show ?thesis .
  next
    assume "st' \<in> set (run b (s, cs))"
    from 5(2)[OF this 5(4)] show ?thesis .
  qed
next
  case (6 a s cs)
  let ?F = "filter (\<lambda>st. length (fst st) < length s) (run a (s, cs))"
  have unfold: "run (Star a) (s, cs) = concat (map (run (Star a)) ?F) @ [(s, cs)]"
    by (rule run.simps)
  from 6(3) have "st' = (s, cs) \<or> (\<exists>x \<in> set ?F. st' \<in> set (run (Star a) x))"
    by (subst (asm) unfold) auto
  then show ?case
  proof
    assume "st' = (s, cs)"
    with 6(4) show ?thesis by simp
  next
    assume "\<exists>x \<in> set ?F. st' \<in> set (run (Star a) x)"
    then obtain x where x: "x \<in> set ?F" "st' \<in> set (run (Star a) x)" by blast
    then have "x \<in> set (run a (s, cs))" by simp
    from 6(1)[OF this 6(4)] have "map_of (snd x) n \<noteq> None" .
    from 6(2)[OF x(1) x(2) this] show ?thesis .
  qed
next
  case (7 m a s cs)
  from 7(2) obtain x where x: "x \<in> set (run a (s, cs))"
    "st' = (fst x, (m, take (length s - length (fst x)) s) # snd x)"
    by (auto simp: run.simps)
  from 7(1)[OF x(1) 7(3)] x(2) show ?case by simp
qed

lemma run_Group_captures:
  "st' \<in> set (run (Group n a) st) \<Longrightarrow> map_of (snd st') n \<noteq> None"
  by (cases st) (auto simp: run.simps)

lemma run_Seq_set: "set (run (Seq a b) st) = (\<Union>x \<in> set (run a st). set (run b x))"
  by (cases st) (simp add: run.simps)

lemma run_TWITTER_URL_MATCH_handle:
  assumes "st' \<in> set (run TWITTER_URL_MATCH st)"
  shows "map_of (snd st') 2 \<noteq> None"
proof -
  from assms obtain x1 x2 x3 x4 where
    g2: "x4 \<in> set (run (Group 2 (Plus (Cls Word))) x3)" and
    rest: "st' \<in> set (run (Seq (lit ''/status'') (Seq (Opt (lit ''es'')) (Seq (lit ''/'')
             (Seq (Group 3 (Plus (Cls Digit))) (Opt (Seq (lit ''/'') (Star (Cls Dot)))))))) x4)"
    unfolding TWITTER_URL_MATCH_def run_Seq_set[of "Group 1 _"] run_Seq_set[of "lit ''.com/''"]
      run_Seq_set[of "Opt (lit ''#!/'')"] run_Seq_set[of "Group 2 _"]
    by blast
  from g2 have "map_of (snd x4) 2 \<noteq> None" by (rule run_Group_captures)
  with rest show ?thesis by (rule run_keeps_captures)
qed

lemma tweetIdFromStatusUrl_None: "(tweetIdFromStatusUrl u = None) = (\<not> matchesStatusUrl u)"
proof (cases "search TWITTER_URL_MATCH [] u")
  case None
  then have "\<not> matchesStatusUrl u"
    using search_lang[of TWITTER_URL_MATCH "[]" u]
    by (simp add: lang_TWITTER_URL_MATCH matchesStatusUrl_def)
  with None show ?thesis by (simp add: tweetIdFromStatusUrl_def)
next
  case (Some m)
  from search_SomeD[OF Some] obtain i where
    "matchAt TWITTER_URL_MATCH ([] @ take i u) (drop i u) = Some m" by blast
  then obtain st sts where "run TWITTER_URL_MATCH (drop i u, []) = st # sts" "groups m = snd st"
    by (auto simp: matchAt_def split: list.splits)
  then have "map_of (groups m) 2 \<noteq> None"
    using run_TWITTER_URL_MATCH_handle[of st "(drop i u, [])"] by simp
  moreover have "matchesStatusUrl u"
    using Some search_lang[of TWITTER_URL_MATCH "[]" u]
    by (simp add: lang_TWITTER_URL_MATCH matchesStatusUrl_def)
  ultimately show ?thesis using Some by (simp add: tweetIdFromStatusUrl_def)
qed

lemma shouldPreHandle_examples:
  "shouldPreHandle ''https://x.com/jack/statuses/20/photo/1''
   \<and> shouldPreHandle ''http://twitter.com/#!/jack/status/20''
   \<and> \<not> shouldPreHandle ''https://twitter.com/jack''
   \<and> \<not> shouldPreHandle ''https://example.com/jack/status/20''"
  by code_simp

text \<open>
  Claim C3 says that \<^verbatim>\<open>tweetIdFromStatusUrl\<close> returns the digits of a status URL. The
  code returns \<^verbatim>\<open>match[2]\<close>, and since the expression captures the domain in group 1,
  group 2 is the handle: for \<^verbatim>\<open>https://twitter.com/jack/status/20\<close> the result is
  \<^verbatim>\<open>jack\<close>, while the digits \<^verbatim>\<open>20\<close> are in group 3. The name of the function asks for
  the id.
\<close>

theorem tweetIdFromStatusUrl_is_handle:
  "tweetIdFromStatusUrl ''https://twitter.com/jack/status/20'' = Some ''jack''
   \<and> map_option (\<lambda>m. map_of (groups m) 3)
         (search TWITTER_URL_MATCH [] ''https://twitter.com/jack/status/20'') = Some (Some ''20'')"
  by code_simp

section \<open>The title\<close>

text \<open>
  Claim C4: the title is the author, \<^verbatim>\<open> on X: \<close> and the text of the post without its first
  URL. If the first URL of the text is at position \<open>i\<close>, the title has the text before
  \<open>i\<close> and the text after the end of that URL, unchanged, later URLs included; a text
  without a URL is in the title as it is.
\<close>

theorem titleForTweet_strips_first_url:
  "(urlAt text i \<and> (\<forall>j<i. \<not> urlAt text j) \<longrightarrow>
      titleForTweet author text =
        author @ '' on X: '' @ take i text @ dropWhile (inCls NonSpace) (drop (i + 4) text))
   \<and> ((\<forall>i. \<not> urlAt text i) \<longrightarrow> titleForTweet author text = author @ '' on X: '' @ text)"
proof (intro conjI impI)
  assume a: "urlAt text i \<and> (\<forall>j<i. \<not> urlAt text j)"
  then have len: "i \<le> length text" by (simp add: urlAt_def)
  from a have "urlAt (drop i text) 0" by (simp add: urlAt_drop)
  from matchAt_httpPattern_Some[OF this, of "[] @ take i text"]
  obtain m where m: "matchAt httpPattern ([] @ take i text) (drop i text) = Some m"
    "before m = take i text" "after m = dropWhile (inCls NonSpace) (drop (i + 4) text)"
    by (auto simp: add.commute)
  have "\<forall>j<i. run httpPattern (drop j text, []) = []"
    using a by (simp add: matchAt_httpPattern_None urlAt_drop)
  with len m(1) have "search httpPattern [] text = Some m" by (rule search_SomeI)
  with m(2,3) show "titleForTweet author text =
        author @ '' on X: '' @ take i text @ dropWhile (inCls NonSpace) (drop (i + 4) text)"
    by (simp add: titleForTweet_def replaceFirst_def)
next
  assume "\<forall>i. \<not> urlAt text i"
  then have "\<forall>i \<le> length text. run httpPattern (drop i text, []) = []"
    by (simp add: matchAt_httpPattern_None urlAt_drop)
  then have "search httpPattern [] text = None" by (simp only: search_None)
  then show "titleForTweet author text = author @ '' on X: '' @ text"
    by (simp add: titleForTweet_def replaceFirst_def)
qed

text \<open>The example of the specification: the first URL goes, the second stays.\<close>

theorem titleForTweet_strips_first_url_witness:
  "titleForTweet ''Ann'' ''see http://a and http://b'' = ''Ann on X: see  and http://b''"
  using titleForTweet_strips_first_url[of "''see http://a and http://b''" 4 "''Ann''"]
  by (simp add: urlAt_def less4 code_def inCls.simps)

section \<open>The posts of a response\<close>

lemma pushTweets_eq: "pushTweets response ts tweets = tweets @ map (tweetOf response) ts"
  by (induction ts arbitrary: tweets) simp_all

lemma getTweetsFromResponse_eq:
  "getTweetsFromResponse response = map (tweetOf response) (tweets_data response)"
  by (simp add: getTweetsFromResponse_def pushTweets_eq)


text \<open>
  Claim C9, as the code has it: \<^verbatim>\<open>getTweetsFromResponse\<close> resolves no author. Every post of
  the output carries the user list of the response, whole and unchanged (in the source
  the one array \<^verbatim>\<open>response.includes.users\<close>, shared by all posts), and the output has the
  posts of the response, one \<^verbatim>\<open>Tweet\<close> each, in the order of the response. So a post has
  exactly one record of its author if and only if the response lists that author once.
\<close>

theorem getTweetsFromResponse_users:
  "list_all (\<lambda>t. users (tweet_includes t) = users (tweets_includes response))
     (getTweetsFromResponse response)
   \<and> map tweet_data (getTweetsFromResponse response) = tweets_data response
   \<and> list_all2 (\<lambda>t d. oneAuthorRecord t =
        (length (filter (\<lambda>u. user_id u = author_id d) (users (tweets_includes response))) = 1))
        (getTweetsFromResponse response) (tweets_data response)"
  by (simp add: getTweetsFromResponse_eq tweetOf_def comp_def list_all_iff
      list_all2_map1 list_all2_same oneAuthorRecord_def authorRecords_def)

text \<open>
  Claim C9 as stated fails: on a response that lists the author of its post twice, the post
  of the output carries two records of that author. And on a response of two posts of one
  author, listed once, each post of the output carries the user list: read as a value, the
  output has the record of the author once for every post.
\<close>

theorem getTweetsFromResponse_two_author_records:
  "\<not> list_all oneAuthorRecord (getTweetsFromResponse twiceListed)
   \<and> map user_name (concat (map authorRecords (getTweetsFromResponse twiceListed)))
       = [''Seven'', ''Seven again'']
   \<and> map (\<lambda>t. map user_name (users (tweet_includes t))) (getTweetsFromResponse byIds)
       = [[''Seven''], [''Seven'']]"
  by (simp add: getTweetsFromResponse_def twiceListed_def byIds_def tweetOf_def
      oneAuthorRecord_def authorRecords_def post7_def user7_def)

section \<open>The credential\<close>

text \<open>
  Claim C8: without the bearer token (the variable unset, or empty) \<^verbatim>\<open>getTweetThread\<close>
  and \<^verbatim>\<open>getTweetsByIds\<close> throw the error \<^verbatim>\<open>No Twitter bearer token found\<close> and leave the
  trace as it was: no request is made, neither once nor again.
\<close>

theorem no_token_no_request:
  "noToken e \<Longrightarrow>
     getTweetThread e conversationId tr = (Inl (Error ''No Twitter bearer token found''), tr)
     \<and> getTweetsByIds e ids tr = (Inl (Error ''No Twitter bearer token found''), tr)"
  by (simp add: getTweetThread_def getTweetsByIds_def)

theorem no_token_no_request_witness:
  "noToken noCredential
   \<and> getTweetThread noCredential ''1'' [] = (Inl (Error ''No Twitter bearer token found''), [])
   \<and> getTweetsByIds noCredential [''2'', ''1''] []
       = (Inl (Error ''No Twitter bearer token found''), [])"
proof -
  have h: "noToken noCredential"
    by (simp add: noToken_def noCredential_def online_def)
  from h no_token_no_request[OF h, of "''1''" "[]" "[''2'', ''1'']"] show ?thesis by simp
qed

section \<open>The strategies of a lookup\<close>

lemma getRecentTweets_trace:
  "\<not> noToken e \<Longrightarrow>
     snd (getRecentTweets e conversationId tr)
       = tr @ [AxiosGet (threadUrl conversationId) (bearerHeaders e)]"
  by (simp add: getRecentTweets_def getTweetThread_def Let_def split: sum.splits)

lemma recencyRequest_threadUrl: "recencyRequest (AxiosGet (threadUrl conversationId) h)"
  by (simp add: recencyRequest_def threadUrl_def)

lemma getTweetIds_trace:
  "\<exists>rest. snd (getTweetIds browser tweetId author tr) = tr @ CreateIncognitoBrowserContext # rest"
  by (simp add: getTweetIds_def scrapePage_def Let_def split: sum.splits option.splits)

lemma getOldTweets_trace:
  "\<exists>rest. snd (getOldTweets e browser conversationId user tr)
            = tr @ CreateIncognitoBrowserContext # rest"
proof -
  obtain r tr1 where g: "getTweetIds browser conversationId user tr = (r, tr1)"
    by (cases "getTweetIds browser conversationId user tr")
  with getTweetIds_trace[of browser conversationId user tr]
  obtain rest where tr1: "tr1 = tr @ CreateIncognitoBrowserContext # rest" by auto
  show ?thesis
  proof (cases r)
    case (Inl err)
    with g tr1 show ?thesis by (simp add: getOldTweets_def)
  next
    case (Inr tweetIds)
    with g tr1 show ?thesis
      by (auto simp: getOldTweets_def getTweetsByIds_def Let_def split: sum.splits)
  qed
qed

text \<open>
  Claim C2, as the code has it: \<^verbatim>\<open>preHandle\<close> makes one request, the GET of the embed
  service, and logs the answer if there is one. It reads no clock, has no browser, and
  calls neither \<^verbatim>\<open>getRecentTweets\<close> nor \<^verbatim>\<open>getOldTweets\<close>: the events of a lookup have
  neither the recency path nor the scrape path nor a resolution by ids, so the two paths
  are never both in one lookup. The two paths themselves do show in a trace:
  \<^verbatim>\<open>getRecentTweets\<close> with a token leaves the GET of the search, \<^verbatim>\<open>getOldTweets\<close> the
  creation of a browser context.
\<close>

theorem preHandle_fetches_the_embed_only:
  "snd (preHandle e u tr)
     = tr @ AxiosGet (embedUrlOf u) []
          # (case axiosGetEmbed e (embedUrlOf u) of Inl err \<Rightarrow> [] | Inr embedTweet \<Rightarrow> [ConsoleLog ''embedTweet''])
   \<and> \<not> usesRecency (drop (length tr) (snd (preHandle e u tr)))
   \<and> \<not> usesScrape (drop (length tr) (snd (preHandle e u tr)))
   \<and> \<not> list_ex bulkRequest (drop (length tr) (snd (preHandle e u tr)))
   \<and> (noToken e \<or> usesRecency (snd (getRecentTweets e conversationId [])))
   \<and> usesScrape (snd (getOldTweets e browser conversationId user []))"
proof -
  have tr: "snd (preHandle e u tr)
     = tr @ AxiosGet (embedUrlOf u) []
          # (case axiosGetEmbed e (embedUrlOf u) of Inl err \<Rightarrow> [] | Inr embedTweet \<Rightarrow> [ConsoleLog ''embedTweet''])"
    by (simp add: preHandle_def getEmbedTweet_def Let_def split: sum.splits)
  have embed: "\<not> recencyRequest (AxiosGet (embedUrlOf u) [])"
    "\<not> bulkRequest (AxiosGet (embedUrlOf u) [])" "\<not> scrapeCall (AxiosGet (embedUrlOf u) [])"
    by (simp_all add: recencyRequest_def bulkRequest_def scrapeCall_def embedUrlOf_def)
  have log: "\<not> recencyRequest (ConsoleLog ''embedTweet'')"
    "\<not> bulkRequest (ConsoleLog ''embedTweet'')" "\<not> scrapeCall (ConsoleLog ''embedTweet'')"
    by (simp_all add: recencyRequest_def bulkRequest_def scrapeCall_def)
  have new: "\<not> usesRecency (drop (length tr) (snd (preHandle e u tr)))"
    "\<not> usesScrape (drop (length tr) (snd (preHandle e u tr)))"
    "\<not> list_ex bulkRequest (drop (length tr) (snd (preHandle e u tr)))"
    unfolding tr usesRecency_def usesScrape_def using embed log
    by (simp_all split: sum.splits)
  have rec: "noToken e \<or> usesRecency (snd (getRecentTweets e conversationId []))"
    by (cases "noToken e") (simp_all add: getRecentTweets_trace usesRecency_def recencyRequest_threadUrl)
  obtain rest where "snd (getOldTweets e browser conversationId user [])
      = [] @ CreateIncognitoBrowserContext # rest"
    using getOldTweets_trace[of e browser conversationId user "[]"] by blast
  then have old: "usesScrape (snd (getOldTweets e browser conversationId user []))"
    by (simp add: usesScrape_def scrapeCall_def)
  from tr new rec old show ?thesis by blast
qed

text \<open>
  Claim C2 as stated fails: a lookup uses neither strategy, not exactly one. In the world
  \<open>online\<close> the lookup of a status URL leaves the GET of the embed and the log.
\<close>

theorem preHandle_uses_no_strategy:
  "\<not> oneStrategy (snd (preHandle online ''https://twitter.com/a/status/1'' []))
   \<and> snd (preHandle online ''https://twitter.com/a/status/1'' [])
       = [AxiosGet ''https://publish.twitter.com/oembed?url=https%3A%2F%2Ftwitter.com%2Fa%2Fstatus%2F1'' [],
          ConsoleLog ''embedTweet'']"
  by code_simp

section \<open>The scrape never fails the caller, if the context closes\<close>




section \<open>The identifiers of the scrape\<close>

lemma run_hrefPattern_set:
  assumes "st \<in> set (run hrefPattern (s, cs))"
  shows "\<exists>i j. take 1 s = ''/''
     \<and> 1 \<le> i \<and> i \<le> length (takeWhile (inCls NotSlash) (drop 1 s))
     \<and> take 8 (drop (i + 1) s) = ''/status/''
     \<and> 1 \<le> j \<and> j \<le> length (takeWhile (inCls Digit) (drop (8 + (i + 1)) s))
     \<and> st = (drop (j + (8 + (i + 1))) s,
             [(2, take j (drop (8 + (i + 1)) s)), (1, take i (drop 1 s))] @ cs)"
proof -
  have l1: "length ''/'' = 1" and l8: "length ''/status/'' = 8" by simp_all
  have r1: "run (lit ''/'') (t, c) = (if take 1 t = ''/'' then [(drop 1 t, c)] else [])" for t c
    using run_lit[of "''/''" t c] by (simp only: l1)
  have r8: "run (lit ''/status/'') (t, c) = (if take 8 t = ''/status/'' then [(drop 8 t, c)] else [])"
    for t c
    using run_lit[of "''/status/''" t c] by (simp only: l8)
  from assms show ?thesis
    unfolding hrefPattern_def run.simps(4) r1 run_Group_Plus_Cls
    apply (auto simp: r8 run_Group_Plus_Cls run.simps(4) simp del: upt_Suc split: if_splits)
    subgoal for x xa
      by (rule exI[of _ x], simp, rule exI[of _ xa], simp)
    done
qed

lemma matchAt_hrefPattern:
  assumes "matchAt hrefPattern pre s = Some m"
  shows "\<exists>g1 g2. groups m = [(2, g2), (1, g1)] \<and> before m = pre
     \<and> s = ''/'' @ g1 @ ''/status/'' @ g2 @ after m
     \<and> g1 \<noteq> [] \<and> list_all (inCls NotSlash) g1 \<and> g2 \<noteq> [] \<and> list_all (inCls Digit) g2"
proof -
  from assms obtain st sts where run: "run hrefPattern (s, []) = st # sts"
    and m: "m = \<lparr> before = pre, matched = take (length s - length (fst st)) s,
                   after = fst st, groups = snd st \<rparr>"
    by (auto simp: matchAt_def split: list.splits)
  then have "st \<in> set (run hrefPattern (s, []))" by simp
  from run_hrefPattern_set[OF this] obtain i j where
    slash: "take 1 s = ''/''" and
    i: "1 \<le> i" "i \<le> length (takeWhile (inCls NotSlash) (drop 1 s))" and
    status: "take 8 (drop (i + 1) s) = ''/status/''" and
    j: "1 \<le> j" "j \<le> length (takeWhile (inCls Digit) (drop (8 + (i + 1)) s))" and
    st: "st = (drop (j + (8 + (i + 1))) s,
              [(2, take j (drop (8 + (i + 1)) s)), (1, take i (drop 1 s))] @ [])"
    by blast
  let ?g1 = "take i (drop 1 s)" and ?g2 = "take j (drop (8 + (i + 1)) s)"
  have li: "i \<le> length (drop 1 s)"
    using i(2) length_takeWhile_le[of "inCls NotSlash" "drop 1 s"] by linarith
  have lj: "j \<le> length (drop (8 + (i + 1)) s)"
    using j(2) length_takeWhile_le[of "inCls Digit" "drop (8 + (i + 1)) s"] by linarith
  have g1: "?g1 \<noteq> []" "list_all (inCls NotSlash) ?g1"
    using i li take_le_takeWhile[OF i(2)] by auto
  have g2: "?g2 \<noteq> []" "list_all (inCls Digit) ?g2"
    using j lj take_le_takeWhile[OF j(2)] by auto
  have e1: "s = take 1 s @ drop 1 s"
    by (simp only: append_take_drop_id)
  have e2: "drop 1 s = ?g1 @ drop i (drop 1 s)"
    by (simp only: append_take_drop_id)
  have e3: "drop (i + 1) s = take 8 (drop (i + 1) s) @ drop 8 (drop (i + 1) s)"
    by (simp only: append_take_drop_id)
  have e4: "drop (8 + (i + 1)) s = ?g2 @ drop j (drop (8 + (i + 1)) s)"
    by (simp only: append_take_drop_id)
  have d2: "drop i (drop 1 s) = drop (i + 1) s" and d3: "drop 8 (drop (i + 1) s) = drop (8 + (i + 1)) s"
    and d4: "drop j (drop (8 + (i + 1)) s) = drop (j + (8 + (i + 1))) s"
    by (simp_all only: drop_drop)
  have "s = ''/'' @ ?g1 @ ''/status/'' @ ?g2 @ drop (j + (8 + (i + 1))) s"
    using e1 e2 e3 e4 unfolding d2 d3 d4 slash status by metis
  with g1 g2 m st show ?thesis by simp
qed


lemma idOfTimeNode_Some:
  assumes "idOfTimeNode author node = Some id'"
  shows "\<exists>anchor href m pre post.
     node = Some anchor \<and> tagName anchor \<noteq> ''SPAN'' \<and> hrefAttribute anchor = Some href
     \<and> search hrefPattern [] href = Some m
     \<and> map_of (groups m) 1 = Some author \<and> map_of (groups m) 2 = Some id'
     \<and> href = pre @ ''/'' @ author @ ''/status/'' @ id' @ post
     \<and> id' \<noteq> [] \<and> list_all (inCls Digit) id'"
proof -
  from assms obtain anchor href m where
    node: "node = Some anchor" "tagName anchor \<noteq> ''SPAN''" "hrefAttribute anchor = Some href" and
    m: "search hrefPattern [] href = Some m" and
    g: "map_of (groups m) 1 = Some author" "map_of (groups m) 2 = Some id'"
    by (auto simp: idOfTimeNode_def split: option.splits if_splits)
  from search_SomeD[OF m] obtain i where
    "matchAt hrefPattern ([] @ take i href) (drop i href) = Some m" by blast
  from matchAt_hrefPattern[OF this] obtain g1 g2 where
    gs: "groups m = [(2, g2), (1, g1)]" "before m = [] @ take i href"
      "drop i href = ''/'' @ g1 @ ''/status/'' @ g2 @ after m"
      "g2 \<noteq> []" "list_all (inCls Digit) g2"
    by blast
  from g gs(1) have eq: "g1 = author" "g2 = id'" by simp_all
  have "href = take i href @ drop i href" by (simp only: append_take_drop_id)
  with gs(3) eq have "href = take i href @ ''/'' @ author @ ''/status/'' @ id' @ after m"
    by simp
  with node m g gs(4,5) eq show ?thesis by blast
qed

lemma collectIds_eq:
  "collectIds author timeNodes ids = ids @ List.map_filter (idOfTimeNode author) timeNodes"
  by (induction timeNodes arbitrary: ids) (simp_all add: List.map_filter_simps split: option.splits)

lemma pageScript_Some:
  assumes "id' \<in> set (pageScript document author)"
  shows "\<exists>node. (node \<in> set (timeParent document) \<or> node \<in> set (timeParentClicked document))
           \<and> idOfTimeNode author node = Some id'"
  using assms
  by (auto simp: pageScript_def collectIds_eq List.map_filter_def split: if_splits)

lemma getTweetIds_Inr:
  assumes "getTweetIds browser tweetId author tr = (Inr ids, tr')" and "ids \<noteq> []"
  shows "\<exists>context page document.
     createIncognitoBrowserContext browser = Inr context \<and> newPage context = Inr page
     \<and> goto page (''https://twitter.com/'' @ author @ ''/status/'' @ tweetId) = Inr document
     \<and> ids = pageScript document author"
  using assms
  by (auto simp: getTweetIds_def scrapePage_def Let_def split: sum.splits option.splits)

text \<open>
  Claim C7: every identifier that \<^verbatim>\<open>getTweetIds\<close> returns comes from a time stamp of the
  rendered page whose link reads \<^verbatim>\<open>.../author/status/id...\<close> with the requested author as
  the user name: the match of the link has the author in group 1 and the identifier in
  group 2. An identifier under another user name is not in the list.
\<close>

theorem getTweetIds_only_author:
  assumes "getTweetIds browser tweetId author tr = (Inr ids, tr')" and "id' \<in> set ids"
  shows "\<exists>context page document anchor href pre post m.
     createIncognitoBrowserContext browser = Inr context \<and> newPage context = Inr page
     \<and> goto page (''https://twitter.com/'' @ author @ ''/status/'' @ tweetId) = Inr document
     \<and> (Some anchor \<in> set (timeParent document) \<or> Some anchor \<in> set (timeParentClicked document))
     \<and> hrefAttribute anchor = Some href
     \<and> href = pre @ ''/'' @ author @ ''/status/'' @ id' @ post
     \<and> search hrefPattern [] href = Some m
     \<and> map_of (groups m) 1 = Some author \<and> map_of (groups m) 2 = Some id'"
proof -
  from assms(2) have "ids \<noteq> []" by auto
  from getTweetIds_Inr[OF assms(1) this] obtain c p d where
    b: "createIncognitoBrowserContext browser = Inr c" "newPage c = Inr p"
      "goto p (''https://twitter.com/'' @ author @ ''/status/'' @ tweetId) = Inr d" and
    ids: "ids = pageScript d author"
    by blast
  from assms(2) ids pageScript_Some obtain node where
    node: "node \<in> set (timeParent d) \<or> node \<in> set (timeParentClicked d)"
      "idOfTimeNode author node = Some id'"
    by blast
  from idOfTimeNode_Some[OF node(2)] obtain anchor href m pre post where
    a: "node = Some anchor" "hrefAttribute anchor = Some href"
      "search hrefPattern [] href = Some m"
      "map_of (groups m) 1 = Some author" "map_of (groups m) 2 = Some id'"
      "href = pre @ ''/'' @ author @ ''/status/'' @ id' @ post"
    by blast
  from b node(1) a show ?thesis by blast
qed

lemma showing_ids:
  "getTweetIds showing ''1'' ''a'' []
     = (Inr [''2'', ''1''],
        [CreateIncognitoBrowserContext, NewPage, SetViewport,
         Goto ''https://twitter.com/a/status/1'', Evaluate, CloseContext])"
  by code_simp

text \<open>
  On the page \<open>threadPage\<close> the author \<^verbatim>\<open>a\<close> has the posts 2 and 1; the post 3 of \<^verbatim>\<open>b\<close>
  is left out.
\<close>

theorem getTweetIds_only_author_witness:
  "getTweetIds showing ''1'' ''a'' []
     = (Inr [''2'', ''1''],
        [CreateIncognitoBrowserContext, NewPage, SetViewport,
         Goto ''https://twitter.com/a/status/1'', Evaluate, CloseContext])
   \<and> (\<exists>context page document anchor href pre post m.
     createIncognitoBrowserContext showing = Inr context \<and> newPage context = Inr page
     \<and> goto page (''https://twitter.com/'' @ ''a'' @ ''/status/'' @ ''1'') = Inr document
     \<and> (Some anchor \<in> set (timeParent document) \<or> Some anchor \<in> set (timeParentClicked document))
     \<and> hrefAttribute anchor = Some href
     \<and> href = pre @ ''/'' @ ''a'' @ ''/status/'' @ ''2'' @ post
     \<and> search hrefPattern [] href = Some m
     \<and> map_of (groups m) 1 = Some ''a'' \<and> map_of (groups m) 2 = Some ''2'')"
proof -
  have "''2'' \<in> set [''2'', ''1'']" by simp
  from getTweetIds_only_author[OF showing_ids this] showing_ids show ?thesis by blast
qed

section \<open>The order of the posts\<close>







section \<open>Parsing the unsubscribe address\<close>

lemma set_replaceString: "set (replaceString pattern [] s) \<subseteq> set s"
proof (induction s)
  case Nil
  show ?case by simp
next
  case (Cons c s)
  have "set (drop (length pattern) (c # s)) \<subseteq> set (c # s)" by (rule set_drop_subset)
  with Cons show ?case by auto
qed

text \<open>
  Claim C10: whenever the \<^verbatim>\<open>URL\<close> constructor reads the query of
  \<^verbatim>\<open>mailto://list@example.com?subject=Stop\<close> as \<^verbatim>\<open>?subject=Stop\<close> with the parameter
  \<^verbatim>\<open>subject\<close> = \<^verbatim>\<open>Stop\<close>, the address parses to \<^verbatim>\<open>list@example.com\<close> with the subject
  \<^verbatim>\<open>Stop\<close>; whenever it finds no query in \<^verbatim>\<open>mailto://list@example.com\<close>, the address parses
  to itself with the subject \<^verbatim>\<open>Unsubscribe\<close>. An address without \<^verbatim>\<open>@\<close> raises an error
  with any constructor: the error of the constructor if it throws, else
  \<^verbatim>\<open>Invalid unsubscribe email address\<close>. And \<^verbatim>\<open>sendUnsubscribeEmail\<close> answers \<^verbatim>\<open>false\<close>
  whenever the parse raises.
\<close>

theorem parseUnsubscribeMailTo_examples:
  "(newURL ''mailto://list@example.com?subject=Stop''
      = Inr \<lparr> url_search = ''?subject=Stop'', url_searchParams = [(''subject'', ''Stop'')] \<rparr> \<longrightarrow>
    parseUnsubscribeMailTo newURL ''list@example.com?subject=Stop''
      = Inr \<lparr> to = ''list@example.com'', subject = ''Stop'' \<rparr>)
   \<and> (newURL ''mailto://list@example.com'' = Inr \<lparr> url_search = [], url_searchParams = [] \<rparr> \<longrightarrow>
    parseUnsubscribeMailTo newURL ''list@example.com''
      = Inr \<lparr> to = ''list@example.com'', subject = ''Unsubscribe'' \<rparr>)
   \<and> (CHR ''@'' \<notin> set address \<longrightarrow>
        parseUnsubscribeMailTo newURL address
          = (case newURL (''mailto://'' @ address) of
               Inl err \<Rightarrow> Inl err
             | Inr parsed \<Rightarrow> Inl (Error (''Invalid unsubscribe email address: '' @ address))))
   \<and> ((\<exists>err. parseUnsubscribeMailTo newURL address = Inl err) \<longrightarrow>
        sendUnsubscribeEmail newURL sendEmail address newsletterEmail = False)"
proof (intro conjI impI)
  assume "newURL ''mailto://list@example.com?subject=Stop''
      = Inr \<lparr> url_search = ''?subject=Stop'', url_searchParams = [(''subject'', ''Stop'')] \<rparr>"
  then show "parseUnsubscribeMailTo newURL ''list@example.com?subject=Stop''
      = Inr \<lparr> to = ''list@example.com'', subject = ''Stop'' \<rparr>"
    by (simp add: parseUnsubscribeMailTo_def)
next
  assume "newURL ''mailto://list@example.com'' = Inr \<lparr> url_search = [], url_searchParams = [] \<rparr>"
  then show "parseUnsubscribeMailTo newURL ''list@example.com''
      = Inr \<lparr> to = ''list@example.com'', subject = ''Unsubscribe'' \<rparr>"
    by (simp add: parseUnsubscribeMailTo_def)
next
  assume "CHR ''@'' \<notin> set address"
  then have "CHR ''@'' \<notin> set (replaceString pat [] address)" for pat
    using set_replaceString[of pat address] by blast
  then show "parseUnsubscribeMailTo newURL address
          = (case newURL (''mailto://'' @ address) of
               Inl err \<Rightarrow> Inl err
             | Inr parsed \<Rightarrow> Inl (Error (''Invalid unsubscribe email address: '' @ address)))"
    by (simp add: parseUnsubscribeMailTo_def Let_def split: sum.splits)
next
  assume "\<exists>err. parseUnsubscribeMailTo newURL address = Inl err"
  then show "sendUnsubscribeEmail newURL sendEmail address newsletterEmail = False"
    by (auto simp: sendUnsubscribeEmail_def)
qed

theorem parseUnsubscribeMailTo_examples_witness:
  "parseUnsubscribeMailTo exampleURLs ''list@example.com?subject=Stop''
      = Inr \<lparr> to = ''list@example.com'', subject = ''Stop'' \<rparr>
   \<and> parseUnsubscribeMailTo exampleURLs ''list@example.com''
      = Inr \<lparr> to = ''list@example.com'', subject = ''Unsubscribe'' \<rparr>
   \<and> parseUnsubscribeMailTo exampleURLs ''example.com''
      = Inl (Error ''Invalid unsubscribe email address: example.com'')
   \<and> sendUnsubscribeEmail exampleURLs (\<lambda>m. Inr True) ''example.com'' ''me@inbox.omnivore.app'' = False"
proof -
  note inst = parseUnsubscribeMailTo_examples[of exampleURLs "''example.com''" "\<lambda>m. Inr True"
      "''me@inbox.omnivore.app''"]
  have 1: "exampleURLs ''mailto://list@example.com?subject=Stop''
      = Inr \<lparr> url_search = ''?subject=Stop'', url_searchParams = [(''subject'', ''Stop'')] \<rparr>"
    and 2: "exampleURLs ''mailto://list@example.com'' = Inr \<lparr> url_search = [], url_searchParams = [] \<rparr>"
    and 3: "CHR ''@'' \<notin> set ''example.com''"
    and 4: "exampleURLs (''mailto://'' @ ''example.com'') = Inr \<lparr> url_search = [], url_searchParams = [] \<rparr>"
    by (simp_all add: exampleURLs_def)
  from inst 1 2 3 4 show ?thesis by simp
qed

end
